theory Spec2Isabelle
  imports Complex_Main
begin

section \<open>JavaScript numbers\<close>

text \<open>
  The calculator works on TypeScript \<open>number\<close>s, IEEE 754 double-precision values. A
  finite double is modelled by the real number it denotes, next to the two infinities and
  NaN; addition, subtraction, multiplication and division compute the exact real result
  and round it to the nearest double, ties to even, overflowing to an infinity and
  underflowing gradually through the subnormal numbers. The sign of zero is not modelled
  (there is one zero, and dividing a non-zero number by it gives the infinity of the
  sign of the dividend).
\<close>

datatype jsnum = Num real | PInf | NInf | NaN

definition pow2 :: "int \<Rightarrow> real" where
  "pow2 e = (if 0 \<le> e then 2 ^ nat e else 1 / 2 ^ nat (- e))"

text \<open>
  The binary exponent \<open>\<lfloor>log\<^sub>2 a\<rfloor>\<close> of a positive \<open>a\<close>, found by halving (for \<open>a \<ge> 1\<close>) or
  doubling (for \<open>a < 1\<close>); the first argument bounds the number of steps, and 1024 steps
  are enough below the overflow threshold, 1022 above the subnormal range.
\<close>

fun log2up :: "nat \<Rightarrow> real \<Rightarrow> int" where
  "log2up 0 a = 0"
| "log2up (Suc n) a = (if a < 2 then 0 else 1 + log2up n (a / 2))"

fun log2down :: "nat \<Rightarrow> real \<Rightarrow> int" where
  "log2down 0 a = 0"
| "log2down (Suc n) a = (if 1 \<le> a then 0 else 1 + log2down n (2 * a))"

text \<open>The exponent of the binade of \<open>a\<close>; subnormal numbers share the exponent -1022.\<close>

definition exponent :: "real \<Rightarrow> int" where
  "exponent a = (if a < pow2 (- 1022) then - 1022
                 else if 1 \<le> a then log2up 1024 a else - log2down 1022 a)"

definition roundHalfEven :: "real \<Rightarrow> int" where
  "roundHalfEven q =
     (let f = \<lfloor>q\<rfloor>; r = q - of_int f
      in if r < 1 / 2 then f else if 1 / 2 < r then f + 1 else if even f then f else f + 1)"

text \<open>
  Rounding a real to the nearest double: the unit in the last place of the binade is
  \<open>2\<^sup>e\<^sup>-\<^sup>5\<^sup>2\<close>, and from \<open>2\<^sup>1\<^sup>0\<^sup>2\<^sup>4 - 2\<^sup>9\<^sup>7\<^sup>0\<close> on (half a unit above the largest double) the
  result is an infinity.
\<close>

definition roundDouble :: "real \<Rightarrow> jsnum" where
  "roundDouble x =
     (if pow2 1024 - pow2 970 \<le> \<bar>x\<bar> then (if 0 < x then PInf else NInf)
      else (let u = pow2 (exponent \<bar>x\<bar> - 52)
            in Num (sgn x * of_int (roundHalfEven (\<bar>x\<bar> / u)) * u)))"

fun jsAdd :: "jsnum \<Rightarrow> jsnum \<Rightarrow> jsnum" where
  "jsAdd (Num a) (Num b) = roundDouble (a + b)"
| "jsAdd NaN y = NaN"
| "jsAdd x NaN = NaN"
| "jsAdd PInf NInf = NaN"
| "jsAdd NInf PInf = NaN"
| "jsAdd PInf y = PInf"
| "jsAdd x PInf = PInf"
| "jsAdd NInf y = NInf"
| "jsAdd x NInf = NInf"

fun jsNeg :: "jsnum \<Rightarrow> jsnum" where
  "jsNeg (Num a) = Num (- a)"
| "jsNeg PInf = NInf"
| "jsNeg NInf = PInf"
| "jsNeg NaN = NaN"

fun jsMul :: "jsnum \<Rightarrow> jsnum \<Rightarrow> jsnum" where
  "jsMul (Num a) (Num b) = roundDouble (a * b)"
| "jsMul NaN y = NaN"
| "jsMul x NaN = NaN"
| "jsMul PInf (Num b) = (if b = 0 then NaN else if 0 < b then PInf else NInf)"
| "jsMul NInf (Num b) = (if b = 0 then NaN else if 0 < b then NInf else PInf)"
| "jsMul (Num a) PInf = (if a = 0 then NaN else if 0 < a then PInf else NInf)"
| "jsMul (Num a) NInf = (if a = 0 then NaN else if 0 < a then NInf else PInf)"
| "jsMul PInf PInf = PInf"
| "jsMul PInf NInf = NInf"
| "jsMul NInf PInf = NInf"
| "jsMul NInf NInf = PInf"

fun jsDiv :: "jsnum \<Rightarrow> jsnum \<Rightarrow> jsnum" where
  "jsDiv (Num a) (Num b) =
     (if b \<noteq> 0 then roundDouble (a / b)
      else if a = 0 then NaN else if 0 < a then PInf else NInf)"
| "jsDiv NaN y = NaN"
| "jsDiv x NaN = NaN"
| "jsDiv (Num a) PInf = Num 0"
| "jsDiv (Num a) NInf = Num 0"
| "jsDiv PInf (Num b) = (if 0 \<le> b then PInf else NInf)"
| "jsDiv NInf (Num b) = (if 0 \<le> b then NInf else PInf)"
| "jsDiv PInf PInf = NaN"
| "jsDiv PInf NInf = NaN"
| "jsDiv NInf PInf = NaN"
| "jsDiv NInf NInf = NaN"

fun jsLess :: "jsnum \<Rightarrow> jsnum \<Rightarrow> bool" where
  "jsLess (Num a) (Num b) = (a < b)"
| "jsLess NaN y = False"
| "jsLess x NaN = False"
| "jsLess x NInf = False"
| "jsLess PInf y = False"
| "jsLess NInf y = True"
| "jsLess x PInf = True"

instantiation jsnum :: "{zero, one, plus, minus, uminus, times, inverse, ord}"
begin

definition zero_jsnum :: jsnum where "zero_jsnum = Num 0"
definition one_jsnum :: jsnum where "one_jsnum = Num 1"
definition plus_jsnum :: "jsnum \<Rightarrow> jsnum \<Rightarrow> jsnum" where "plus_jsnum x y = jsAdd x y"
definition uminus_jsnum :: "jsnum \<Rightarrow> jsnum" where "uminus_jsnum x = jsNeg x"
definition minus_jsnum :: "jsnum \<Rightarrow> jsnum \<Rightarrow> jsnum" where "minus_jsnum x y = jsAdd x (jsNeg y)"
definition times_jsnum :: "jsnum \<Rightarrow> jsnum \<Rightarrow> jsnum" where "times_jsnum x y = jsMul x y"
definition divide_jsnum :: "jsnum \<Rightarrow> jsnum \<Rightarrow> jsnum" where "divide_jsnum x y = jsDiv x y"
definition inverse_jsnum :: "jsnum \<Rightarrow> jsnum" where "inverse_jsnum x = jsDiv (Num 1) x"
definition less_jsnum :: "jsnum \<Rightarrow> jsnum \<Rightarrow> bool" where "less_jsnum x y = jsLess x y"
definition less_eq_jsnum :: "jsnum \<Rightarrow> jsnum \<Rightarrow> bool" where
  "less_eq_jsnum x y = (jsLess x y \<or> (x = y \<and> x \<noteq> NaN))"

instance ..

end

text \<open>\<open>Math.min\<close>: NaN if either argument is NaN.\<close>

definition jsMin :: "jsnum \<Rightarrow> jsnum \<Rightarrow> jsnum" where
  "jsMin x y = (if x = NaN \<or> y = NaN then NaN else if y < x then y else x)"

text \<open>\<open>x || y\<close> on numbers: \<open>x\<close> is falsy when it is zero or NaN.\<close>

definition jsOr :: "jsnum \<Rightarrow> jsnum \<Rightarrow> jsnum" where
  "jsOr x y = (if x = NaN \<or> x = Num 0 then y else x)"

text \<open>
  \<open>xs[i]\<close>: a read past the end gives \<open>undefined\<close>. Every such read in this program
  is either used in arithmetic, where \<open>undefined\<close> becomes NaN, or tested by \<open>||\<close>,
  where \<open>undefined\<close> is falsy as NaN is; so the read is modelled as NaN.
\<close>

definition jsIndex :: "jsnum list \<Rightarrow> nat \<Rightarrow> jsnum" where
  "jsIndex xs i = (if i < length xs then xs ! i else NaN)"

text \<open>\<open>xs.filter((_, index) => index !== i)\<close>\<close>

definition removeIndex :: "nat \<Rightarrow> 'a list \<Rightarrow> 'a list" where
  "removeIndex i xs = map (\<lambda>index. xs ! index) (filter (\<lambda>index. index \<noteq> i) [0..<length xs])"

section \<open>ICMCalculator\<close>

text \<open>
  The static methods of the class, in the order the later ones need the earlier ones.
  Arrays of numbers are lists; \<open>playerIndex\<close> is a natural number (an index past the end
  is allowed and read as the code reads it); \<open>reduce\<close> is \<open>foldl\<close> and a \<open>for\<close> loop
  over \<open>0 .. n - 1\<close> that accumulates \<open>equity\<close> is a \<open>foldl\<close> over \<open>[0..<n]\<close>.
\<close>

definition calculateEliminationProbabilities :: "jsnum list \<Rightarrow> jsnum list" where
  "calculateEliminationProbabilities stacks =
     (let probs = map (\<lambda>i.
            let otherStacks = removeIndex i stacks;
                harmonicMean = Num (real (length otherStacks))
                                 / foldl (\<lambda>sum stack. sum + 1 / stack) 0 otherStacks
            in harmonicMean / (harmonicMean + stacks ! i)) [0..<length stacks];
          sum = foldl (\<lambda>total prob. total + prob) 0 probs
      in map (\<lambda>prob. prob / sum) probs)"

lemma length_removeIndex: "i < length xs \<Longrightarrow> length (removeIndex i xs) < length xs"
proof -
  assume i: "i < length xs"
  have "length (filter (\<lambda>index. index \<noteq> i) [0..<length xs]) < length [0..<length xs]"
    by (rule length_filter_less [of i]) (use i in auto)
  then show ?thesis by (simp add: removeIndex_def)
qed

function calculateInMoneyEquity :: "jsnum list \<Rightarrow> jsnum list \<Rightarrow> nat \<Rightarrow> jsnum" where
  "calculateInMoneyEquity stacks payouts playerIndex =
     (if length stacks = 1 then jsIndex payouts 0
      else if length stacks = 2 then
        (let totalChips = stacks ! 0 + stacks ! 1;
             playerChips = jsIndex stacks playerIndex;
             winProb = playerChips / totalChips
         in winProb * jsIndex payouts 0 + (1 - winProb) * jsOr (jsIndex payouts 1) 0)
      else
        (let eliminationProbs = calculateEliminationProbabilities stacks
         in foldl (\<lambda>equity i.
              if i = playerIndex then
                equity + eliminationProbs ! i * jsOr (jsIndex payouts (length stacks - 1)) 0
              else
                equity + eliminationProbs ! i *
                  calculateInMoneyEquity (removeIndex i stacks)
                    (take (length (removeIndex i stacks)) payouts)
                    (if playerIndex > i then playerIndex - 1 else playerIndex))
            0 [0..<length stacks]))"
  by pat_completeness auto
termination
  by (relation "measure (\<lambda>(stacks, payouts, playerIndex). length stacks)")
     (auto simp: length_removeIndex)

function calculatePlayerEquity :: "jsnum list \<Rightarrow> jsnum list \<Rightarrow> nat \<Rightarrow> jsnum" where
  "calculatePlayerEquity stacks payouts playerIndex =
     (if length stacks = 1 then jsOr (jsIndex payouts 0) 0
      else if length stacks \<le> length payouts then
        calculateInMoneyEquity stacks payouts playerIndex
      else
        (let eliminationProbs = calculateEliminationProbabilities stacks
         in foldl (\<lambda>equity i.
              if i = playerIndex then equity
              else if length (take (min (length payouts) (length (removeIndex i stacks))) payouts) > 0
              then
                equity + eliminationProbs ! i *
                  calculatePlayerEquity (removeIndex i stacks)
                    (take (min (length payouts) (length (removeIndex i stacks))) payouts)
                    (if playerIndex > i then playerIndex - 1 else playerIndex)
              else equity)
            0 [0..<length stacks]))"
  by pat_completeness auto
termination
  by (relation "measure (\<lambda>(stacks, payouts, playerIndex). length stacks)")
     (auto simp: length_removeIndex)

text \<open>
  The recursive calls of the two functions, read off their loops: \<open>call callee caller\<close>
  relates the arguments of a recursive call to the arguments of the invocation making it.
\<close>

inductive playerEquityCall ::
  "jsnum list \<times> jsnum list \<times> nat \<Rightarrow> jsnum list \<times> jsnum list \<times> nat \<Rightarrow> bool" where
  "length stacks \<noteq> 1 \<Longrightarrow> \<not> length stacks \<le> length payouts \<Longrightarrow>
   i < length stacks \<Longrightarrow> i \<noteq> playerIndex \<Longrightarrow>
   length (take (min (length payouts) (length (removeIndex i stacks))) payouts) > 0 \<Longrightarrow>
   playerEquityCall
     (removeIndex i stacks,
      take (min (length payouts) (length (removeIndex i stacks))) payouts,
      if playerIndex > i then playerIndex - 1 else playerIndex)
     (stacks, payouts, playerIndex)"

inductive inMoneyEquityCall ::
  "jsnum list \<times> jsnum list \<times> nat \<Rightarrow> jsnum list \<times> jsnum list \<times> nat \<Rightarrow> bool" where
  "length stacks \<noteq> 1 \<Longrightarrow> length stacks \<noteq> 2 \<Longrightarrow>
   i < length stacks \<Longrightarrow> i \<noteq> playerIndex \<Longrightarrow>
   inMoneyEquityCall
     (removeIndex i stacks,
      take (length (removeIndex i stacks)) payouts,
      if playerIndex > i then playerIndex - 1 else playerIndex)
     (stacks, payouts, playerIndex)"

record ICMResult =
  equity :: jsnum
  chipEV :: jsnum
  dollarEV :: jsnum
  riskPremium :: jsnum

datatype error = Error string

text \<open>
  \<open>calculateICM\<close>; the \<open>throw\<close> is the \<open>Inl\<close> result. The default value 0 of
  \<open>playerIndex\<close> is left to the caller.
\<close>

definition calculateICM :: "jsnum list \<Rightarrow> jsnum list \<Rightarrow> nat \<Rightarrow> error + ICMResult" where
  "calculateICM stacks payouts playerIndex =
     (let totalChips = foldl (\<lambda>sum stack. sum + stack) 0 stacks;
          playerStack = jsIndex stacks playerIndex
      in if length payouts = 0 \<or> length stacks = 0 then
           Inl (Error ''Invalid input: empty stacks or payouts'')
         else
           (let equity = calculatePlayerEquity stacks payouts playerIndex;
                chipEV = (playerStack / totalChips)
                           * foldl (\<lambda>sum payout. sum + payout) 0 payouts;
                dollarEV = equity;
                riskPremium = chipEV - dollarEV
            in Inr \<lparr>equity = equity, chipEV = chipEV, dollarEV = dollarEV,
                     riskPremium = riskPremium\<rparr>))"

definition calculateBubbleFactor :: "jsnum list \<Rightarrow> jsnum list \<Rightarrow> nat \<Rightarrow> jsnum" where
  "calculateBubbleFactor stacks payouts playerIndex =
     (let totalChips = foldl (\<lambda>sum stack. sum + stack) 0 stacks;
          playerStack = jsIndex stacks playerIndex;
          chipEquity = (playerStack / totalChips)
                         * foldl (\<lambda>sum payout. sum + payout) 0 payouts;
          icmEquity = calculatePlayerEquity stacks payouts playerIndex
      in if icmEquity > 0 then chipEquity / icmEquity else 1)"

record PushFoldResult =
  pushEV :: jsnum
  foldEV :: jsnum

definition calculatePushFoldEquity ::
  "jsnum \<Rightarrow> jsnum \<Rightarrow> jsnum \<Rightarrow> jsnum \<Rightarrow> jsnum \<Rightarrow> jsnum \<Rightarrow> PushFoldResult" where
  "calculatePushFoldEquity heroStack villainStack blinds antes callingRange foldEquity =
     (let pot = blinds + antes;
          foldEV = 0;
          callEquity = Num 0.5;
          effectiveStack = jsMin heroStack villainStack;
          pushEV = (foldEquity * pot) +
                   ((1 - foldEquity) * (callEquity * (pot + effectiveStack)
                                         - (1 - callEquity) * effectiveStack))
      in \<lparr>pushEV = pushEV, foldEV = foldEV\<rparr>)"




declare calculateInMoneyEquity.simps [simp del]
declare calculatePlayerEquity.simps [simp del]

section \<open>Evaluating the arithmetic\<close>

text \<open>
  Rounding a concrete rational is a computation: the exponent search is unfolded step by
  step, and \<open>round_eval\<close> collects the definitions involved.
\<close>

lemma zero_jsnum_Num: "(0::jsnum) = Num 0"
  by (simp add: zero_jsnum_def)

lemma one_jsnum_Num: "(1::jsnum) = Num 1"
  by (simp add: one_jsnum_def)

lemma log2up_numeral [simp]:
  "log2up (numeral k) a = (if a < 2 then 0 else 1 + log2up (pred_numeral k) (a / 2))"
  by (simp add: numeral_eq_Suc)

lemma log2down_numeral [simp]:
  "log2down (numeral k) a = (if 1 \<le> a then 0 else 1 + log2down (pred_numeral k) (2 * a))"
  by (simp add: numeral_eq_Suc)

lemmas round_eval = roundDouble_def exponent_def roundHalfEven_def pow2_def Let_def

lemmas jsnum_ops = plus_jsnum_def minus_jsnum_def times_jsnum_def divide_jsnum_def
  zero_jsnum_def one_jsnum_def less_jsnum_def

lemma roundDouble_half: "roundDouble (1 / 2) = Num (1 / 2)"
  by (simp add: round_eval)

lemma log2up_pow2: "n < m \<Longrightarrow> log2up m (2 ^ n) = int n"
proof (induction n arbitrary: m)
  case 0
  then obtain k where "m = Suc k" by (cases m) auto
  then show ?case by simp
next
  case (Suc n)
  then obtain k where m: "m = Suc k" and k: "n < k" by (cases m) auto
  have "1 \<le> (2::real) ^ n" by simp
  then have "\<not> (2::real) * 2 ^ n < 2" by linarith
  with Suc.IH [OF k] show ?case by (simp add: m)
qed

lemma roundDouble_zero: "roundDouble 0 = Num 0"
  by (simp add: round_eval)

lemma roundDouble_largest_power:
  "roundDouble (2 ^ 1023) = Num (2 ^ 1023) \<and> roundDouble (2 ^ 1023 + 2 ^ 1023) = PInf
   \<and> roundDouble (1 / 2 ^ 1023) = Num (1 / 2 ^ 1023)"
proof -
  have e: "log2up 1024 (2 ^ 1023) = int 1023"
    by (rule log2up_pow2) simp
  have ex: "exponent (2 ^ 1023) = 1023"
    unfolding exponent_def e by (simp add: pow2_def)
  have ab: "\<bar>(2::real) ^ 1023\<bar> = 2 ^ 1023" by simp
  have a: "roundDouble (2 ^ 1023) = Num (2 ^ 1023)"
    unfolding roundDouble_def ab ex by (simp add: roundHalfEven_def pow2_def Let_def)
  have b: "roundDouble (2 ^ 1023 + 2 ^ 1023) = PInf"
    by (simp add: roundDouble_def pow2_def)
  have c: "roundDouble (1 / 2 ^ 1023) = Num (1 / 2 ^ 1023)"
    by (simp add: round_eval)
  from a b c show ?thesis by simp
qed

section \<open>Rounding is to a nearest double\<close>

text \<open>
  The exponent search finds the binade of its argument, so that the result of
  \<open>roundDouble\<close> is a multiple of the unit in the last place with a significand of at most
  53 bits, at most half a unit away from the argument.
\<close>

lemma pow2_powi: "pow2 e = 2 powi e"
  by (simp add: pow2_def power_int_def field_simps)

lemma pow2_pos: "0 < pow2 e"
  by (simp add: pow2_def)

lemma pow2_Suc: "pow2 (e + 1) = 2 * pow2 e"
  by (simp add: pow2_powi power_int_add)

lemma pow2_pred: "pow2 (e - 1) = pow2 e / 2"
  by (simp add: pow2_powi power_int_diff)

lemma pow2_mono: "a \<le> b \<Longrightarrow> pow2 a \<le> pow2 b"
  by (simp add: pow2_powi power_int_increasing)

lemma log2up_correct:
  "1 \<le> a \<Longrightarrow> a < 2 ^ Suc n \<Longrightarrow>
   0 \<le> log2up n a \<and> pow2 (log2up n a) \<le> a \<and> a < pow2 (log2up n a + 1)"
proof (induction n arbitrary: a)
  case 0
  then show ?case by (simp add: pow2_def)
next
  case (Suc n)
  show ?case
  proof (cases "a < 2")
    case True
    with Suc.prems show ?thesis by (simp add: pow2_def)
  next
    case False
    define d where "d = log2up n (a / 2)"
    from False Suc.prems have "1 \<le> a / 2" "a / 2 < 2 ^ Suc n" by simp_all
    from Suc.IH [OF this] have ih: "0 \<le> d" "pow2 d \<le> a / 2" "a / 2 < pow2 (d + 1)"
      by (simp_all add: d_def)
    have e: "log2up (Suc n) a = d + 1" using False by (simp add: d_def)
    have "pow2 (d + 1) \<le> a" using ih(2) by (simp add: pow2_Suc)
    moreover have "a < pow2 (d + 1 + 1)"
    proof -
      have p: "pow2 (d + 1 + 1) = 2 * pow2 (d + 1)" by (rule pow2_Suc)
      from ih(3) have "a < 2 * pow2 (d + 1)" by simp
      then show ?thesis by (simp only: p)
    qed
    ultimately show ?thesis unfolding e using ih(1) by simp
  qed
qed

lemma log2down_correct:
  "0 < a \<Longrightarrow> a < 1 \<Longrightarrow> 1 \<le> a * 2 ^ n \<Longrightarrow>
   0 < log2down n a \<and> log2down n a \<le> int n
   \<and> pow2 (- log2down n a) \<le> a \<and> a < pow2 (- log2down n a + 1)"
proof (induction n arbitrary: a)
  case 0
  then show ?case by simp
next
  case (Suc n)
  show ?case
  proof (cases "1 \<le> 2 * a")
    case True
    then have "log2down n (2 * a) = 0" by (cases n) simp_all
    with Suc.prems True show ?thesis by (simp add: pow2_def)
  next
    case False
    define d where "d = log2down n (2 * a)"
    from False Suc.prems have "0 < 2 * a" "2 * a < 1" "1 \<le> 2 * a * 2 ^ n"
      by (simp_all add: mult.assoc mult.left_commute)
    from Suc.IH [OF this] have ih: "0 < d" "d \<le> int n" "pow2 (- d) \<le> 2 * a"
      "2 * a < pow2 (- d + 1)"
      by (simp_all add: d_def)
    have e: "log2down (Suc n) a = d + 1" using Suc.prems(2) by (simp add: d_def)
    have p1: "pow2 (- (d + 1)) = pow2 (- d) / 2"
    proof -
      have "- (d + 1) = - d - 1" by simp
      then show ?thesis by (simp only: pow2_pred)
    qed
    have p2: "pow2 (- (d + 1) + 1) = pow2 (- d + 1) / 2"
    proof -
      have "- (d + 1) + 1 = - d + 1 - 1" by simp
      then show ?thesis by (simp only: pow2_pred)
    qed
    have "pow2 (- (d + 1)) \<le> a" unfolding p1 using ih(3) by simp
    moreover have "a < pow2 (- (d + 1) + 1)" unfolding p2 using ih(4) by simp
    ultimately show ?thesis unfolding e using ih(1,2) by simp
  qed
qed

lemma exponent_correct:
  assumes "pow2 (- 1022) \<le> a" and "a < pow2 1024"
  shows "- 1022 \<le> exponent a \<and> exponent a \<le> 1023
         \<and> pow2 (exponent a) \<le> a \<and> a < pow2 (exponent a + 1)"
proof -
  have bounds: "- 1022 \<le> e \<and> e \<le> 1023" if "pow2 e \<le> a" "a < pow2 (e + 1)" for e
  proof -
    have "\<not> 1024 \<le> e"
    proof
      assume "1024 \<le> e"
      from pow2_mono [OF this] that(1) assms(2) show False by linarith
    qed
    moreover have "\<not> e + 1 \<le> - 1022"
    proof
      assume "e + 1 \<le> - 1022"
      from pow2_mono [OF this] that(2) assms(1) show False by linarith
    qed
    ultimately show ?thesis by linarith
  qed
  show ?thesis
  proof (cases "1 \<le> a")
    case True
    from assms(2) have "a < 2 ^ Suc 1024" by (simp add: pow2_def)
    from log2up_correct [OF True this]
    have c: "pow2 (log2up 1024 a) \<le> a" "a < pow2 (log2up 1024 a + 1)" by simp_all
    have e: "exponent a = log2up 1024 a"
      using True assms(1) by (simp only: exponent_def) (simp add: not_less)
    from bounds [OF c] c show ?thesis unfolding e by simp
  next
    case False
    have pos: "0 < a" using assms(1) pow2_pos [of "- 1022"] by linarith
    from assms(1) have "1 \<le> a * 2 ^ 1022" by (simp add: pow2_def field_simps)
    from log2down_correct [OF pos _ this] False
    have c: "pow2 (- log2down 1022 a) \<le> a" "a < pow2 (- log2down 1022 a + 1)" by simp_all
    have e: "exponent a = - log2down 1022 a"
      using False assms(1) by (simp only: exponent_def) (simp add: not_less)
    from bounds [OF c] c show ?thesis unfolding e by simp
  qed
qed

lemma roundHalfEven_near: "\<bar>of_int (roundHalfEven q) - q\<bar> \<le> 1 / 2"
  by (simp add: roundHalfEven_def Let_def)

lemma roundHalfEven_bounds:
  "0 \<le> q \<Longrightarrow> q \<le> of_int n \<Longrightarrow> 0 \<le> roundHalfEven q \<and> roundHalfEven q \<le> n"
proof -
  assume q: "0 \<le> q" "q \<le> of_int n"
  have f: "\<lfloor>q\<rfloor> \<le> n" using q(2) by (simp add: floor_le_iff)
  have z: "0 \<le> \<lfloor>q\<rfloor>" using q(1) by simp
  show ?thesis
  proof (cases "\<lfloor>q\<rfloor> = n")
    case True
    then have "q - of_int \<lfloor>q\<rfloor> \<le> 0" using q(2) by simp
    then show ?thesis using True z by (simp add: roundHalfEven_def Let_def)
  next
    case False
    with f have "\<lfloor>q\<rfloor> + 1 \<le> n" by simp
    with z show ?thesis by (auto simp: roundHalfEven_def Let_def)
  qed
qed

text \<open>
  Below the overflow threshold the result is a multiple \<open>k\<close> of the unit in the last place
  of the binade, with \<open>0 \<le> k \<le> 2\<^sup>5\<^sup>3\<close>, and it is nearest to the argument: it differs
  from it by at most half a unit.
\<close>

lemma roundDouble_nearest:
  assumes "\<bar>x\<bar> < pow2 1024 - pow2 970"
  shows "\<exists>k. roundDouble x = Num (sgn x * of_int k * pow2 (exponent \<bar>x\<bar> - 52))
           \<and> 0 \<le> k \<and> k \<le> 2 ^ 53
           \<and> \<bar>sgn x * of_int k * pow2 (exponent \<bar>x\<bar> - 52) - x\<bar>
                \<le> pow2 (exponent \<bar>x\<bar> - 52) / 2"
proof -
  define u where "u = pow2 (exponent \<bar>x\<bar> - 52)"
  define k where "k = roundHalfEven (\<bar>x\<bar> / u)"
  have u: "0 < u" by (simp add: u_def pow2_pos)
  have r: "roundDouble x = Num (sgn x * of_int k * u)"
    using assms by (simp add: roundDouble_def Let_def u_def k_def)
  have lt: "\<bar>x\<bar> < pow2 (exponent \<bar>x\<bar> + 1)"
  proof (cases "pow2 (- 1022) \<le> \<bar>x\<bar>")
    case True
    have "pow2 1024 - pow2 970 < pow2 1024" using pow2_pos [of 970] by simp
    with assms have "\<bar>x\<bar> < pow2 1024" by linarith
    from exponent_correct [OF True this] show ?thesis by simp
  next
    case False
    then have "exponent \<bar>x\<bar> = - 1022" by (simp add: exponent_def)
    moreover have "pow2 (- 1022) \<le> pow2 (- 1022 + 1)" by (rule pow2_mono) simp
    ultimately show ?thesis using False by simp
  qed
  have "pow2 (exponent \<bar>x\<bar> + 1) = 2 ^ 53 * u"
    by (simp add: u_def pow2_powi power_int_add power_int_diff)
  with lt u have q: "\<bar>x\<bar> / u \<le> of_int (2 ^ 53)"
    by (simp add: field_simps)
  have "0 \<le> \<bar>x\<bar> / u" using u by simp
  from roundHalfEven_bounds [OF this q] have kb: "0 \<le> k" "k \<le> 2 ^ 53"
    by (simp_all add: k_def)
  have "\<bar>of_int k - \<bar>x\<bar> / u\<bar> \<le> 1 / 2"
    unfolding k_def by (rule roundHalfEven_near)
  then have "\<bar>of_int k * u - \<bar>x\<bar>\<bar> \<le> u / 2"
    using u by (simp add: abs_le_iff field_simps)
  moreover have "\<bar>sgn x * of_int k * u - x\<bar> = \<bar>of_int k * u - \<bar>x\<bar>\<bar>"
  proof -
    consider "0 < x" | "x = 0" | "x < 0" by linarith
    then show ?thesis
    proof cases
      case 1
      then show ?thesis by simp
    next
      case 2
      then have "k = 0" by (simp add: k_def roundHalfEven_def)
      with 2 show ?thesis by simp
    next
      case 3
      then have "\<bar>sgn x * of_int k * u - x\<bar> = \<bar>- (of_int k * u - \<bar>x\<bar>)\<bar>" by simp
      then show ?thesis by (simp only: abs_minus_cancel)
    qed
  qed
  ultimately have "\<bar>sgn x * of_int k * u - x\<bar> \<le> u / 2" by simp
  with r kb show ?thesis unfolding u_def by blast
qed

text \<open>
  Some roundings: 0.1 and 1 / 3; ties go to the even significand; half of the smallest
  subnormal number rounds to 0; the overflow threshold rounds to an infinity.
\<close>

lemma roundDouble_examples:
  "roundDouble (1 / 10) = Num (3602879701896397 / 36028797018963968)"
  "roundDouble (1 / 3) = Num (6004799503160661 / 18014398509481984)"
  "roundDouble (2 ^ 53 + 1) = Num (2 ^ 53)"
  "roundDouble (2 ^ 53 + 3) = Num (2 ^ 53 + 4)"
  "roundDouble (- (2 ^ 53 + 3)) = Num (- (2 ^ 53 + 4))"
  "roundDouble (1 / 2 ^ 1075) = Num 0"
  "roundDouble (3 / 2 ^ 1075) = Num (2 / 2 ^ 1074)"
  "roundDouble (2 ^ 1024 - 2 ^ 970) = PInf"
  "roundDouble (- (2 ^ 1024 - 2 ^ 970)) = NInf"
  by (simp_all add: round_eval)

section \<open>Signs\<close>











section \<open>calculatePushFoldEquity\<close>

text \<open>
  C9. For every input, \<open>foldEV\<close> is exactly 0 and \<open>pushEV\<close> is
  \<open>foldEquity * pot + (1 - foldEquity) * (0.5 * (pot + effectiveStack) - 0.5 * effectiveStack)\<close>
  with \<open>pot = blinds + antes\<close> and \<open>effectiveStack = min heroStack villainStack\<close>;
  the call equity is the constant 0.5 (so is its complement \<open>1 - 0.5\<close>).
\<close>

theorem pushFold_formula:
  "foldEV (calculatePushFoldEquity heroStack villainStack blinds antes callingRange foldEquity) = Num 0
   \<and> pushEV (calculatePushFoldEquity heroStack villainStack blinds antes callingRange foldEquity)
       = foldEquity * (blinds + antes)
         + (1 - foldEquity) * (Num 0.5 * ((blinds + antes) + jsMin heroStack villainStack)
                                - Num 0.5 * jsMin heroStack villainStack)"
proof -
  have half: "(1::jsnum) - Num (1 / 2) = Num (1 / 2)"
    by (simp add: one_jsnum_Num minus_jsnum_def roundDouble_half)
  show ?thesis
    by (simp add: calculatePushFoldEquity_def Let_def half zero_jsnum_Num)
qed




section \<open>calculateEliminationProbabilities\<close>


lemma length_removeIndex_eq: "i < length xs \<Longrightarrow> length (removeIndex i xs) = length xs - 1"
proof -
  assume i: "i < length xs"
  have "[0..<length xs] = [0..<i] @ i # [Suc i..<length xs]"
    using i by (metis upt_conv_Cons upt_add_eq_append le0 le_add_diff_inverse less_imp_le_nat)
  then have "filter (\<lambda>j. j \<noteq> i) [0..<length xs] = [0..<i] @ [Suc i..<length xs]"
    by (simp add: filter_id_conv)
  then show ?thesis using i by (simp add: removeIndex_def)
qed









section \<open>calculateICM\<close>

text \<open>
  C7. \<open>calculateICM\<close> fails, with the invalid-input error, exactly when \<open>stacks\<close> or
  \<open>payouts\<close> is empty. For non-empty stacks and payouts and a valid player index it
  returns a result whose \<open>equity\<close> is the player's equity, with \<open>dollarEV = equity\<close>,
  \<open>chipEV = (stacks[playerIndex] / totalChips) * sum(payouts)\<close> and
  \<open>riskPremium = chipEV - dollarEV\<close>.
\<close>

theorem calculateICM_result:
  "((\<exists>e. calculateICM stacks payouts playerIndex = Inl e) \<longleftrightarrow> stacks = [] \<or> payouts = [])
   \<and> (stacks = [] \<or> payouts = [] \<longrightarrow>
         calculateICM stacks payouts playerIndex = Inl (Error ''Invalid input: empty stacks or payouts''))
   \<and> (stacks \<noteq> [] \<and> payouts \<noteq> [] \<and> playerIndex < length stacks \<longrightarrow>
         (\<exists>r. calculateICM stacks payouts playerIndex = Inr r
            \<and> equity r = calculatePlayerEquity stacks payouts playerIndex
            \<and> dollarEV r = equity r
            \<and> chipEV r = (stacks ! playerIndex / foldl (\<lambda>sum stack. sum + stack) 0 stacks)
                           * foldl (\<lambda>sum payout. sum + payout) 0 payouts
            \<and> riskPremium r = chipEV r - dollarEV r))"
  by (auto simp: calculateICM_def Let_def jsIndex_def)

theorem calculateICM_result_witness:
  "\<exists>r. calculateICM [Num 1000, Num 500] [Num 1000, Num 600] 0 = Inr r
      \<and> dollarEV r = equity r
      \<and> chipEV r = Num (2345624805922133 / 2199023255552)
      \<and> riskPremium r = chipEV r - dollarEV r"
proof -
  have "[Num 1000, Num 500] \<noteq> [] \<and> [Num 1000, Num 600] \<noteq> [] \<and> 0 < length [Num 1000, Num 500]"
    by simp
  with calculateICM_result [of "[Num 1000, Num 500]" "[Num 1000, Num 600]" 0]
  obtain r where r: "calculateICM [Num 1000, Num 500] [Num 1000, Num 600] 0 = Inr r"
    "dollarEV r = equity r"
    "chipEV r = ([Num 1000, Num 500] ! 0 / foldl (\<lambda>sum stack. sum + stack) 0 [Num 1000, Num 500])
                           * foldl (\<lambda>sum payout. sum + payout) 0 [Num 1000, Num 600]"
    "riskPremium r = chipEV r - dollarEV r"
    by blast
  have "chipEV r = Num (2345624805922133 / 2199023255552)"
    by (simp add: r(3) jsnum_ops round_eval)
  with r show ?thesis by blast
qed

section \<open>Two players\<close>

text \<open>
  C8, as the claim states it, fails in double arithmetic: the code weighs the second prize
  with \<open>1 - s0 / (s0 + s1)\<close>, which is not always the double \<open>s1 / (s0 + s1)\<close>. For
  stacks 1 and 2 and payouts 600 and 400 the code returns 466.6666666666667, the formula
  of the claim is 466.66666666666663 in doubles and 1400 / 3 exactly. For two stacks of
  \<open>2\<^sup>1\<^sup>0\<^sup>2\<^sup>3\<close> the sum of the stacks overflows, both quotients are 0, and the code returns
  \<open>0 * 600 + (1 - 0) * 400 = 400\<close> where the formula of the claim is 0 in doubles and 500
  exactly.
\<close>

theorem two_player_counterexample:
  "calculatePlayerEquity [Num 1, Num 2] [Num 600, Num 400] 0
     = Num (8209686820727467 / 17592186044416)
   \<and> (Num 1 / (Num 1 + Num 2)) * Num 600 + (Num 2 / (Num 1 + Num 2)) * Num 400
     = Num (4104843410363733 / 8796093022208)
   \<and> (8209686820727467 / 17592186044416 :: real) \<noteq> 4104843410363733 / 8796093022208
   \<and> (8209686820727467 / 17592186044416 :: real) \<noteq> 1 / (1 + 2) * 600 + 2 / (1 + 2) * 400
   \<and> calculatePlayerEquity [Num (2 ^ 1023), Num (2 ^ 1023)] [Num 600, Num 400] 0 = Num 400
   \<and> (Num (2 ^ 1023) / (Num (2 ^ 1023) + Num (2 ^ 1023))) * Num 600
       + (Num (2 ^ 1023) / (Num (2 ^ 1023) + Num (2 ^ 1023))) * Num 400 = Num 0"
proof -
  have a: "calculatePlayerEquity [Num 1, Num 2] [Num 600, Num 400] 0
     = Num (8209686820727467 / 17592186044416)"
    by (simp add: calculatePlayerEquity.simps calculateInMoneyEquity.simps jsIndex_def jsOr_def
        jsnum_ops round_eval)
  have b: "(Num 1 / (Num 1 + Num 2)) * Num 600 + (Num 2 / (Num 1 + Num 2)) * Num 400
     = Num (4104843410363733 / 8796093022208)"
    by (simp add: jsnum_ops round_eval)
  have c: "(8209686820727467 / 17592186044416 :: real) \<noteq> 4104843410363733 / 8796093022208"
    by simp
  have d: "(8209686820727467 / 17592186044416 :: real) \<noteq> 1 / (1 + 2) * 600 + 2 / (1 + 2) * 400"
    by simp
  define big :: real where "big = 2 ^ 1023"
  have r: "roundDouble (big + big) = PInf"
    using roundDouble_largest_power by (simp only: big_def)
  have r2: "roundDouble (2 * big) = PInf"
    using r by (simp only: mult_2)
  have s: "roundDouble 1 = Num 1" "roundDouble 400 = Num 400"
    by (simp_all add: round_eval)
  have "calculatePlayerEquity [Num big, Num big] [Num 600, Num 400] 0 = Num 400
      \<and> (Num big / (Num big + Num big)) * Num 600
          + (Num big / (Num big + Num big)) * Num 400 = Num 0"
    by (simp add: calculatePlayerEquity.simps calculateInMoneyEquity.simps jsIndex_def jsOr_def
        jsnum_ops r r2 s roundDouble_zero)
  then have e: "calculatePlayerEquity [Num (2 ^ 1023), Num (2 ^ 1023)] [Num 600, Num 400] 0 = Num 400
      \<and> (Num (2 ^ 1023) / (Num (2 ^ 1023) + Num (2 ^ 1023))) * Num 600
          + (Num (2 ^ 1023) / (Num (2 ^ 1023) + Num (2 ^ 1023))) * Num 400 = Num 0"
    by (simp only: big_def)
  from a b c d e show ?thesis by (simp only: simp_thms)
qed

text \<open>
  C8, amended. For every two stacks and at least two payouts the equity of player 0 is
  \<open>winProb * payouts[0] + (1 - winProb) * (payouts[1] || 0)\<close> with
  \<open>winProb = s0 / (s0 + s1)\<close>, every operation rounded to a double, and mirrored for
  player 1 (\<open>winProb = s1 / (s0 + s1)\<close>); for stacks 3000 and 1000 and payouts 600 and 400
  that is exactly 550.
\<close>

theorem two_player_equity:
  "calculatePlayerEquity [s0, s1] (p0 # p1 # rest) 0
     = (s0 / (s0 + s1)) * p0 + (1 - s0 / (s0 + s1)) * jsOr p1 0
   \<and> calculatePlayerEquity [s0, s1] (p0 # p1 # rest) 1
     = (s1 / (s0 + s1)) * p0 + (1 - s1 / (s0 + s1)) * jsOr p1 0
   \<and> calculatePlayerEquity [Num 3000, Num 1000] [Num 600, Num 400] 0 = Num 550"
proof -
  have a: "calculatePlayerEquity [s0, s1] (p0 # p1 # rest) 0
     = (s0 / (s0 + s1)) * p0 + (1 - s0 / (s0 + s1)) * jsOr p1 0" for s0 s1 p0 p1 rest
    by (simp add: calculatePlayerEquity.simps calculateInMoneyEquity.simps jsIndex_def Let_def)
  have b: "calculatePlayerEquity [s0, s1] (p0 # p1 # rest) 1
     = (s1 / (s0 + s1)) * p0 + (1 - s1 / (s0 + s1)) * jsOr p1 0"
    by (simp add: calculatePlayerEquity.simps calculateInMoneyEquity.simps jsIndex_def Let_def)
  have c: "calculatePlayerEquity [Num 3000, Num 1000] [Num 600, Num 400] 0 = Num 550"
    by (simp add: a jsOr_def jsnum_ops round_eval)
  from a b c show ?thesis by (simp only: simp_thms)
qed

section \<open>A zero stack\<close>

text \<open>
  C5. For stacks 1000, 0, 500 and payouts 1000, 600, \<open>calculateICM\<close> returns a result
  for each of the three players, and every field of it is a finite number (so none is
  NaN): the term \<open>1 / 0\<close> is \<open>Infinity\<close>, the harmonic mean over it is 0, and the
  player with no chips gets elimination probability 1. Up to rounding the equities are
  2600 / 3, 0 and 2200 / 3, the chip values 3200 / 3, 0 and 1600 / 3, and the risk premiums
  200, 0 and -200.
\<close>

theorem zero_stack_no_NaN:
  "calculateICM [Num 1000, Num 0, Num 500] [Num 1000, Num 600] 0
     = Inr \<lparr>equity = Num (7623280619246933 / 8796093022208),
            chipEV = Num (2345624805922133 / 2199023255552),
            dollarEV = Num (7623280619246933 / 8796093022208),
            riskPremium = Num (1759218604441599 / 8796093022208)\<rparr>
   \<and> calculateICM [Num 1000, Num 0, Num 500] [Num 1000, Num 600] 1
     = Inr \<lparr>equity = Num 0, chipEV = Num 0, dollarEV = Num 0, riskPremium = Num 0\<rparr>
   \<and> calculateICM [Num 1000, Num 0, Num 500] [Num 1000, Num 600] 2
     = Inr \<lparr>equity = Num (6450468216285867 / 8796093022208),
            chipEV = Num (2345624805922133 / 4398046511104),
            dollarEV = Num (6450468216285867 / 8796093022208),
            riskPremium = Num (- (1759218604441601 / 8796093022208))\<rparr>"
proof -
  have upt3: "[0..<3] = [0, 1, 2]" by (simp add: upt_rec)
  have upt2: "[0..<2] = [0, 1]" by (simp add: upt_rec)
  have e: "calculateEliminationProbabilities [Num 1000, Num 0, Num 500] = [Num 0, Num 1, Num 0]"
    by (simp add: calculateEliminationProbabilities_def removeIndex_def jsnum_ops upt3 round_eval)
  have p0: "calculatePlayerEquity [Num 1000, Num 0, Num 500] [Num 1000, Num 600] 0
      = Num (7623280619246933 / 8796093022208)"
    by (simp add: calculatePlayerEquity.simps calculateInMoneyEquity.simps e removeIndex_def
        jsnum_ops upt3 upt2 jsIndex_def jsOr_def round_eval)
  have p1: "calculatePlayerEquity [Num 1000, Num 0, Num 500] [Num 1000, Num 600] 1 = Num 0"
    by (simp add: calculatePlayerEquity.simps calculateInMoneyEquity.simps e removeIndex_def
        jsnum_ops upt3 upt2 jsIndex_def jsOr_def round_eval)
  have p2: "calculatePlayerEquity [Num 1000, Num 0, Num 500] [Num 1000, Num 600] 2
      = Num (6450468216285867 / 8796093022208)"
    by (simp add: calculatePlayerEquity.simps calculateInMoneyEquity.simps e removeIndex_def
        jsnum_ops upt3 upt2 jsIndex_def jsOr_def round_eval)
  show ?thesis
    by (simp add: calculateICM_def p0 p1 [unfolded One_nat_def] p2 jsIndex_def jsnum_ops
        round_eval)
qed

section \<open>calculateBubbleFactor\<close>

text \<open>
  C2. For stacks 4000, 500, 500, payouts 6000, 4000 and the chip leader (player 0) the
  chip equity is 8000 and the ICM equity is 5316.29392971246 (1664000 / 313 up to
  rounding), so the function returns 1.5048076923076923 (313 / 208 up to rounding), which
  is not below 1.
\<close>

theorem bubbleFactor_chip_leader:
  "calculateBubbleFactor [Num 4000, Num 500, Num 500] [Num 6000, Num 4000] 0
     = Num (6777051362341179 / 4503599627370496)
   \<and> \<not> calculateBubbleFactor [Num 4000, Num 500, Num 500] [Num 6000, Num 4000] 0 < 1"
proof -
  have upt3: "[0..<3] = [0, 1, 2]" by (simp add: upt_rec)
  have upt2: "[0..<2] = [0, 1]" by (simp add: upt_rec)
  have e: "calculateEliminationProbabilities [Num 4000, Num 500, Num 500]
      = [Num (2877699442409263 / 36028797018963968), Num (8287774394138677 / 18014398509481984),
         Num (8287774394138677 / 18014398509481984)]"
    by (simp add: calculateEliminationProbabilities_def removeIndex_def jsnum_ops upt3 round_eval)
  have p0: "calculatePlayerEquity [Num 4000, Num 500, Num 500] [Num 6000, Num 4000] 0
      = Num (5845326992393815 / 1099511627776)"
    by (simp add: calculatePlayerEquity.simps calculateInMoneyEquity.simps e removeIndex_def
        jsnum_ops upt3 upt2 jsIndex_def jsOr_def round_eval)
  show ?thesis
    by (simp add: calculateBubbleFactor_def p0 jsIndex_def jsnum_ops round_eval)
qed

section \<open>Termination and recursion depth\<close>

text \<open>
  \<open>playerEquityCall\<close> and \<open>inMoneyEquityCall\<close> are exactly the call relations that the
  definitions of \<open>calculatePlayerEquity\<close> and \<open>calculateInMoneyEquity\<close> give rise to.
\<close>

lemma playerEquityCall_rel: "playerEquityCall = calculatePlayerEquity_rel"
proof (intro ext iffI)
  fix x y
  assume "playerEquityCall x y"
  then show "calculatePlayerEquity_rel x y"
  proof cases
    case (1 stacks payouts i playerIndex)
    have "calculatePlayerEquity_rel
        (removeIndex i stacks, take (min (length payouts) (length (removeIndex i stacks))) payouts,
         if i < playerIndex then playerIndex - 1 else playerIndex)
        (stacks, payouts, playerIndex)"
      by (rule calculatePlayerEquity_rel.intros [OF _ _ refl]) (use 1 in simp_all)
    then show ?thesis by (simp only: 1(1,2))
  qed
next
  fix x y
  assume "calculatePlayerEquity_rel x y"
  then show "playerEquityCall x y"
  proof cases
    case (1 stacks payouts playerIndex x a xa)
    have "playerEquityCall
        (removeIndex xa stacks, take (min (length payouts) (length (removeIndex xa stacks))) payouts,
         if xa < playerIndex then playerIndex - 1 else playerIndex)
        (stacks, payouts, playerIndex)"
      by (rule playerEquityCall.intros) (use 1 in simp_all)
    then show ?thesis by (simp only: 1(1,2))
  qed
qed

lemma inMoneyEquityCall_rel: "inMoneyEquityCall = calculateInMoneyEquity_rel"
proof (intro ext iffI)
  fix x y
  assume "inMoneyEquityCall x y"
  then show "calculateInMoneyEquity_rel x y"
  proof cases
    case (1 stacks i playerIndex payouts)
    have "calculateInMoneyEquity_rel
        (removeIndex i stacks, take (length (removeIndex i stacks)) payouts,
         if i < playerIndex then playerIndex - 1 else playerIndex)
        (stacks, payouts, playerIndex)"
      by (rule calculateInMoneyEquity_rel.intros [OF _ _ refl]) (use 1 in simp_all)
    then show ?thesis by (simp only: 1(1,2))
  qed
next
  fix x y
  assume "calculateInMoneyEquity_rel x y"
  then show "inMoneyEquityCall x y"
  proof cases
    case (1 stacks payouts playerIndex x a xa)
    have "inMoneyEquityCall
        (removeIndex xa stacks, take (length (removeIndex xa stacks)) payouts,
         if xa < playerIndex then playerIndex - 1 else playerIndex)
        (stacks, payouts, playerIndex)"
      by (rule inMoneyEquityCall.intros) (use 1 in simp_all)
    then show ?thesis by (simp only: 1(1,2))
  qed
qed

lemma playerEquity_call_shrinks:
  "playerEquityCall (s', p', k') (s, p, k) \<Longrightarrow> length s' + 1 = length s"
  by (erule playerEquityCall.cases) (auto simp: length_removeIndex_eq)

lemma inMoneyEquity_call_shrinks:
  "inMoneyEquityCall (s', p', k') (s, p, k) \<Longrightarrow> length s' + 1 = length s"
  by (erule inMoneyEquityCall.cases) (auto simp: length_removeIndex_eq)

lemma playerEquity_depth:
  "(playerEquityCall ^^ d) (s', p', k') (s, p, k) \<Longrightarrow> length s' + d = length s"
proof (induction d arbitrary: s p k)
  case 0
  then show ?case by simp
next
  case (Suc d)
  from Suc.prems obtain y where y: "(playerEquityCall ^^ d) (s', p', k') y"
      "playerEquityCall y (s, p, k)"
    by auto
  obtain s1 p1 k1 where [simp]: "y = (s1, p1, k1)" by (cases y)
  from y Suc.IH [of s1 p1 k1] playerEquity_call_shrinks [of s1 p1 k1 s p k]
  show ?case by simp
qed

lemma inMoneyEquity_depth:
  "(inMoneyEquityCall ^^ d) (s', p', k') (s, p, k) \<Longrightarrow> length s' + d = length s"
proof (induction d arbitrary: s p k)
  case 0
  then show ?case by simp
next
  case (Suc d)
  from Suc.prems obtain y where y: "(inMoneyEquityCall ^^ d) (s', p', k') y"
      "inMoneyEquityCall y (s, p, k)"
    by auto
  obtain s1 p1 k1 where [simp]: "y = (s1, p1, k1)" by (cases y)
  from y Suc.IH [of s1 p1 k1] inMoneyEquity_call_shrinks [of s1 p1 k1 s p k]
  show ?case by simp
qed

lemma playerEquity_wf: "wfP playerEquityCall"
proof -
  have "wf (measure (\<lambda>(s :: jsnum list, p :: jsnum list, k :: nat). length s))" by simp
  moreover have "{(x, y). playerEquityCall x y}
      \<subseteq> measure (\<lambda>(s, p, k). length s)"
    by (auto dest!: playerEquity_call_shrinks)
  ultimately have "wf {(x, y). playerEquityCall x y}" by (rule wf_subset)
  then show ?thesis by (simp add: wfp_def)
qed

lemma inMoneyEquity_wf: "wfP inMoneyEquityCall"
proof -
  have "wf (measure (\<lambda>(s :: jsnum list, p :: jsnum list, k :: nat). length s))" by simp
  moreover have "{(x, y). inMoneyEquityCall x y}
      \<subseteq> measure (\<lambda>(s, p, k). length s)"
    by (auto dest!: inMoneyEquity_call_shrinks)
  ultimately have "wf {(x, y). inMoneyEquityCall x y}" by (rule wf_subset)
  then show ?thesis by (simp add: wfp_def)
qed

text \<open>
  C6. Both recursions terminate on every input: their call relations are well-founded
  (and \<open>calculatePlayerEquity\<close> and \<open>calculateInMoneyEquity\<close> are total functions).
  Every recursive call is on a stacks list exactly one shorter than the caller's; hence a
  call nested \<open>d1\<close> levels deep in \<open>calculatePlayerEquity\<close> and from there \<open>d2\<close> levels
  deep in \<open>calculateInMoneyEquity\<close> works on \<open>length stacks - d1 - d2\<close> stacks, and the
  depth \<open>d1 + d2\<close> is at most the initial number of players.
\<close>

theorem recursion_depth_bounded:
  "wfP playerEquityCall \<and> wfP inMoneyEquityCall
   \<and> playerEquityCall = calculatePlayerEquity_rel
   \<and> inMoneyEquityCall = calculateInMoneyEquity_rel
   \<and> (playerEquityCall (s', p', k') (s, p, k) \<longrightarrow> length s' + 1 = length s)
   \<and> (inMoneyEquityCall (s', p', k') (s, p, k) \<longrightarrow> length s' + 1 = length s)
   \<and> ((playerEquityCall ^^ d1) (s1, p1, k1) (s, p, k)
        \<and> (inMoneyEquityCall ^^ d2) (s2, p2, k2) (s1, p1, k1)
      \<longrightarrow> length s2 + d1 + d2 = length s \<and> d1 + d2 \<le> length s)"
  using playerEquity_wf inMoneyEquity_wf playerEquity_call_shrinks inMoneyEquity_call_shrinks
    playerEquity_depth [of d1 s1 p1 k1 s p k] inMoneyEquity_depth [of d2 s2 p2 k2 s1 p1 k1]
    playerEquityCall_rel inMoneyEquityCall_rel
  by auto

theorem recursion_depth_bounded_witness:
  "playerEquityCall ([Num 1000, Num 500], [Num 1000, Num 600], 0)
       ([Num 1000, Num 0, Num 500], [Num 1000, Num 600], 0)
   \<and> length [Num 1000, Num 500] + 1 = length [Num 1000, Num 0, Num 500]"
proof -
  have upt3: "[0..<3] = [0, 1, 2]" by (simp add: upt_rec)
  have "playerEquityCall
       (removeIndex 1 [Num 1000, Num 0, Num 500],
        take (min (length [Num 1000, Num 600])
               (length (removeIndex 1 [Num 1000, Num 0, Num 500]))) [Num 1000, Num 600],
        if (0::nat) > 1 then 0 - 1 else 0)
       ([Num 1000, Num 0, Num 500], [Num 1000, Num 600], 0)"
    by (rule playerEquityCall.intros) (simp_all add: removeIndex_def upt3)
  then have step: "playerEquityCall ([Num 1000, Num 500], [Num 1000, Num 600], 0)
       ([Num 1000, Num 0, Num 500], [Num 1000, Num 600], 0)"
    by (simp add: removeIndex_def upt3)
  with recursion_depth_bounded [of "[Num 1000, Num 500]" "[Num 1000, Num 600]" 0
      "[Num 1000, Num 0, Num 500]" "[Num 1000, Num 600]" 0]
  show ?thesis by blast
qed

section \<open>Prize money and stack size: four inputs\<close>

text \<open>
  With more payouts than players only the first \<open>stacks.length\<close> prizes are paid: for
  stacks 3000 and 1000 and payouts 600, 400 and 200 the two equities are 550 and 450, which
  sum to 1000, while the payouts sum to 1200.
\<close>

lemma more_payouts_than_players:
  "calculatePlayerEquity [Num 3000, Num 1000] [Num 600, Num 400, Num 200] 0 = Num 550
   \<and> calculatePlayerEquity [Num 3000, Num 1000] [Num 600, Num 400, Num 200] 1 = Num 450
   \<and> Num 550 + Num 450 = Num 1000
   \<and> foldl (\<lambda>sum payout. sum + payout) 0 [Num 600, Num 400, Num 200] = Num 1200"
  by (simp add: calculatePlayerEquity.simps calculateInMoneyEquity.simps jsIndex_def jsOr_def
      jsnum_ops round_eval)

text \<open>
  With as many payouts as players an overflow loses prize money: for two stacks of
  \<open>2\<^sup>1\<^sup>0\<^sup>2\<^sup>3\<close> and payouts 600 and 400 each of the two equities is 400.
\<close>

lemma overflow_loses_prize_money:
  "calculatePlayerEquity [Num (2 ^ 1023), Num (2 ^ 1023)] [Num 600, Num 400] 0 = Num 400
   \<and> calculatePlayerEquity [Num (2 ^ 1023), Num (2 ^ 1023)] [Num 600, Num 400] 1 = Num 400"
proof -
  define big :: real where "big = 2 ^ 1023"
  have r: "roundDouble (big + big) = PInf"
    using roundDouble_largest_power by (simp only: big_def)
  have r2: "roundDouble (2 * big) = PInf"
    using r by (simp only: mult_2)
  have s: "roundDouble 1 = Num 1" "roundDouble 400 = Num 400"
    by (simp_all add: round_eval)
  have "calculatePlayerEquity [Num big, Num big] [Num 600, Num 400] 0 = Num 400
      \<and> calculatePlayerEquity [Num big, Num big] [Num 600, Num 400] 1 = Num 400"
    by (simp add: calculatePlayerEquity.simps calculateInMoneyEquity.simps jsIndex_def jsOr_def
        jsnum_ops r r2 s roundDouble_zero)
  then show ?thesis by (simp only: big_def)
qed

text \<open>
  With payouts 100 and 200, the second place paying more than the first, a larger stack
  lowers the equity: for stacks 1000 and 1000 player 0 has equity 150, and with the stack
  raised to 2000 the equity is 133.33333333333331.
\<close>

lemma larger_stack_lower_equity:
  "calculatePlayerEquity [Num 1000, Num 1000] [Num 100, Num 200] 0 = Num 150
   \<and> calculatePlayerEquity [Num 2000, Num 1000] [Num 100, Num 200] 0
       = Num (2345624805922133 / 17592186044416)
   \<and> Num (2345624805922133 / 17592186044416) < Num 150"
  by (simp add: calculatePlayerEquity.simps calculateInMoneyEquity.simps jsIndex_def jsOr_def
      jsnum_ops round_eval)

text \<open>
  With equal payouts 1000 and 1000 rounding alone lowers the equity: for stacks 105 and 121
  player 0 has equity 1000.0000000000001, and with the stack raised to 106 the equity is
  1000.
\<close>

lemma rounding_lowers_equity:
  "calculatePlayerEquity [Num 105, Num 121] [Num 1000, Num 1000] 0
       = Num (8796093022208001 / 8796093022208)
   \<and> calculatePlayerEquity [Num 106, Num 121] [Num 1000, Num 1000] 0 = Num 1000
   \<and> Num 1000 < Num (8796093022208001 / 8796093022208)"
  by (simp add: calculatePlayerEquity.simps calculateInMoneyEquity.simps jsIndex_def jsOr_def
      jsnum_ops round_eval)

end
